theory Spec2Isabelle
  imports Main "HOL-Library.Sublist"
begin

section \<open>Data model\<close>

text \<open>
  A commit as the rebase tool reads it (go-git's \<open>object.Commit\<close>): only the hash,
  through \<open>commit.Hash.String()\<close>, and the message are ever consulted. Strings are Go
  strings, that is byte sequences.
\<close>

record Commit =
  Hash :: string
  Message :: string

text \<open>
  Go \<open>error\<close> values. \<open>External\<close> is an error produced by a collaborator (go-git, the
  git command line, the operating system); \<open>Errorf\<close> is \<open>fmt.Errorf\<close> with a plain
  message; \<open>Wrapf ctx e\<close> is \<open>fmt.Errorf("ctx: %w", e)\<close>.
\<close>

datatype error = External string | Errorf string | Wrapf string error

text \<open>
  What stops a function before it returns normally: an error value handed back to the
  caller, or a run-time panic (here only the index-out-of-range panic of a slice read).
\<close>

datatype fault = Error error | IndexOutOfRange nat nat

section \<open>package apply: the action classifier\<close>

subsection \<open>The regular expression \<open>UPSTREAM: (?P<action>[<>\w]+):\<close>\<close>

text \<open>
  \<open>\w\<close> in Go's RE2 syntax is the ASCII class \<open>[0-9A-Za-z_]\<close>.
\<close>

definition isWordChar :: "char \<Rightarrow> bool" where
  "isWordChar c = (c \<in> set ''0123456789ABCDEFGHIJKLMNOPQRSTUVWXYZabcdefghijklmnopqrstuvwxyz_'')"

definition isActionChar :: "char \<Rightarrow> bool" where
  "isActionChar c = (c = CHR ''<'' \<or> c = CHR ''>'' \<or> isWordChar c)"

text \<open>
  A match of \<open>actionRE\<close> that starts at the first byte of \<open>s\<close>: the literal
  \<open>UPSTREAM: \<close>, then the longest non-empty run of class characters (the \<open>+\<close> is
  greedy, and giving a character back never helps, since the colon is not in the
  class), then a colon. The result is the pair of the whole match and the text of the
  group \<open>action\<close>.
\<close>

definition matchHere :: "string \<Rightarrow> (string \<times> string) option" where
  "matchHere s =
     (if prefix ''UPSTREAM: '' s then
        (let rest = drop (length ''UPSTREAM: '') s;
             a = takeWhile isActionChar rest
         in if a \<noteq> [] \<and> take 1 (dropWhile isActionChar rest) = '':''
            then Some (''UPSTREAM: '' @ a @ '':'', a) else None)
      else None)"

text \<open>
  \<open>actionRE.FindStringSubmatch\<close>: the leftmost match, as the slice of the whole match
  and its one group; the nil slice (here the empty list) when nothing matches.
\<close>

fun FindStringSubmatch :: "string \<Rightarrow> string list" where
  "FindStringSubmatch s =
     (case matchHere s of
        Some (whole, a) \<Rightarrow> [whole, a]
      | None \<Rightarrow> (case s of [] \<Rightarrow> [] | _ # t \<Rightarrow> FindStringSubmatch t))"

text \<open>
  \<open>actionRE.SubexpIndex\<close>: the index of the first group with the given name, -1 when
  there is none. The expression has the one group \<open>action\<close>, at index 1.
\<close>

definition SubexpIndex :: "string \<Rightarrow> int" where
  "SubexpIndex name = (if name = ''action'' then 1 else -1)"

subsection \<open>\<open>actionFromMessage\<close>\<close>

text \<open>
  The slice read \<open>matches[lastIndex]\<close> panics when the index is not below the length
  of the slice, which is the case for the nil slice of a message that has no match.
\<close>

definition actionFromMessage :: "string \<Rightarrow> fault + string" where
  "actionFromMessage message =
     (let matches = FindStringSubmatch message;
          lastIndex = SubexpIndex ''action''
      in if lastIndex < 0 then Inr ''''
         else if nat lastIndex < length matches then Inr (matches ! nat lastIndex)
         else Inl (IndexOutOfRange (nat lastIndex) (length matches)))"

subsection \<open>\<open>strconv.Atoi\<close> on an action\<close>

definition isDigit :: "char \<Rightarrow> bool" where
  "isDigit c = (c \<in> set ''0123456789'')"

definition digitsValue :: "string \<Rightarrow> nat" where
  "digitsValue s = foldl (\<lambda>n c. n * 10 + (of_char c - 48)) 0 s"

text \<open>
  \<open>strconv.Atoi(s)\<close> returns a nil error exactly when \<open>s\<close> is an optional sign followed
  by one or more decimal digits whose value fits the type \<open>int\<close> (64 bits on the
  platforms the tool is built for). Base 10 is fixed, so underscores are refused.
\<close>

definition AtoiOk :: "string \<Rightarrow> bool" where
  "AtoiOk s =
     (let (neg, ds) = (case s of
                         c # r \<Rightarrow> if c = CHR ''+'' then (False, r)
                                  else if c = CHR ''-'' then (True, r) else (False, s)
                       | [] \<Rightarrow> (False, s))
      in ds \<noteq> [] \<and> list_all isDigit ds \<and>
         (if neg then digitsValue ds \<le> 2 ^ 63 else digitsValue ds < 2 ^ 63))"

subsection \<open>The dispatch of \<open>Run\<close>\<close>

text \<open>
  The three arms of the \<open>switch action\<close> in the loop of \<open>Run\<close>; the default arm keeps
  the action text it logs.
\<close>

datatype Action = Carry | Drop | Unknown string

text \<open>
  Lines 56 to 71 of \<open>Run\<close> up to the choice of the arm: the action is read from the
  formatted message, an action that \<open>strconv.Atoi\<close> accepts is replaced by
  \<open><carry>\<close>, and the switch compares the result with \<open><carry>\<close> and \<open><drop>\<close>.
\<close>

definition classify :: "string \<Rightarrow> fault + Action" where
  "classify message =
     (case actionFromMessage message of
        Inl f \<Rightarrow> Inl f
      | Inr action0 \<Rightarrow>
          (let action = (if AtoiOk action0 then ''<carry>'' else action0)
           in if action = ''<carry>'' then Inr Carry
              else if action = ''<drop>'' then Inr Drop
              else Inr (Unknown action)))"

section \<open>package apply: collaborators and their trace\<close>

text \<open>
  Everything \<open>Run\<close> and \<open>carryFlow\<close> do to the outside world goes through these
  operations. Each takes the state of the world (repository, working tree, file system)
  and returns its result with the new state, so an operation may answer differently
  each time it is called. \<open>FormatMessage\<close> (package utils) and \<open>path.Join\<close> are pure;
  \<open>DateOnly\<close> is \<open>time.Now().Format(time.DateOnly)\<close>.
\<close>

record 'w Ports =
  OpenGit :: "string \<Rightarrow> 'w \<Rightarrow> error option \<times> 'w"
  GetCommits :: "string \<Rightarrow> string \<Rightarrow> 'w \<Rightarrow> (error + Commit list) \<times> 'w"
  DateOnly :: "'w \<Rightarrow> string"
  CreateBranch :: "string \<Rightarrow> string \<Rightarrow> 'w \<Rightarrow> error option \<times> 'w"
  Merge :: "string \<Rightarrow> 'w \<Rightarrow> error option \<times> 'w"
  CherryPick :: "string \<Rightarrow> 'w \<Rightarrow> error option \<times> 'w"
  Status :: "'w \<Rightarrow> error option \<times> 'w"
  AbortCherryPick :: "'w \<Rightarrow> error option \<times> 'w"
  Apply :: "string \<Rightarrow> 'w \<Rightarrow> error option \<times> 'w"
  Getwd :: "'w \<Rightarrow> (error + string) \<times> 'w"
  Stat :: "string \<Rightarrow> 'w \<Rightarrow> error option \<times> 'w"
  Join :: "string list \<Rightarrow> string"
  FormatMessage :: "string \<Rightarrow> string"

text \<open>
  The trace records, in order, every call to a collaborator and every \<open>klog\<close> line,
  with the arguments that identify it.
\<close>

datatype Event =
    CallOpenGit string
  | CallGetCommits string string
  | CallCreateBranch string string
  | CallMerge string
  | CallCherryPick string
  | CallStatus
  | CallAbortCherryPick
  | CallApply string
  | CallGetwd
  | CallStat string
  | LogProcessing string string
  | LogInitiating string
  | LogProblems string
  | LogLooking
  | LogManualIntervention string
  | LogFound string
  | LogDropping string
  | LogUnknown string string

type_synonym 'w state = "'w \<times> Event list"

definition call :: "('w \<Rightarrow> 'r \<times> 'w) \<Rightarrow> Event \<Rightarrow> 'w state \<Rightarrow> 'r \<times> 'w state" where
  "call port ev s = (case port (fst s) of (r, w') \<Rightarrow> (r, (w', snd s @ [ev])))"

definition klog :: "Event \<Rightarrow> 'w state \<Rightarrow> 'w state" where
  "klog ev s = (fst s, snd s @ [ev])"

section \<open>package apply: \<open>findFixedCarry\<close>, \<open>carryFlow\<close>, \<open>Run\<close>\<close>

definition findFixedCarry :: "'w Ports \<Rightarrow> string \<Rightarrow> 'w state \<Rightarrow> (error + string) \<times> 'w state" where
  "findFixedCarry P carrySha s =
     (case call (Getwd P) CallGetwd s of
        (Inl err, s1) \<Rightarrow> (Inl err, s1)
      | (Inr cwd, s1) \<Rightarrow>
          (let carryPath = Join P [cwd, ''carries'', carrySha]
           in case call (Stat P carryPath) (CallStat carryPath) s1 of
                (Some err, s2) \<Rightarrow> (Inl err, s2)
              | (None, s2) \<Rightarrow> (Inr carryPath, s2)))"

definition carryFlow :: "'w Ports \<Rightarrow> Commit \<Rightarrow> 'w state \<Rightarrow> error option \<times> 'w state" where
  "carryFlow P commit s =
     (case call (CherryPick P (Hash commit)) (CallCherryPick (Hash commit))
             (klog (LogInitiating (Hash commit)) s) of
        (None, s1) \<Rightarrow> (None, s1)
      | (Some _, s1) \<Rightarrow>
          (case call (Status P) CallStatus (klog (LogProblems (Hash commit)) s1) of
             (Some err, s2) \<Rightarrow> (Some err, s2)
           | (None, s2) \<Rightarrow>
               (case call (AbortCherryPick P) CallAbortCherryPick s2 of
                  (Some err, s3) \<Rightarrow> (Some err, s3)
                | (None, s3) \<Rightarrow>
                    (case findFixedCarry P (Hash commit) (klog LogLooking s3) of
                       (Inl err, s4) \<Rightarrow>
                         (Some err, klog (LogManualIntervention (Hash commit)) s4)
                     | (Inr patch, s4) \<Rightarrow>
                         (case call (Apply P patch) (CallApply patch) (klog (LogFound patch) s4) of
                            (Some err, s5) \<Rightarrow> (Some err, s5)
                          | (None, s5) \<Rightarrow> (None, s5))))))"

text \<open>The loop \<open>for _, c := range commits\<close> of \<open>Run\<close>.\<close>

fun processCommits :: "'w Ports \<Rightarrow> Commit list \<Rightarrow> 'w state \<Rightarrow> fault option \<times> 'w state" where
  "processCommits P [] s = (None, s)"
| "processCommits P (c # cs) s =
     (let message = FormatMessage P (Message c);
          s1 = klog (LogProcessing (Hash c) message) s
      in case classify message of
           Inl f \<Rightarrow> (Some f, s1)
         | Inr Carry \<Rightarrow>
             (case carryFlow P c s1 of
                (Some err, s2) \<Rightarrow> (Some (Error err), s2)
              | (None, s2) \<Rightarrow> processCommits P cs s2)
         | Inr Drop \<Rightarrow> processCommits P cs (klog (LogDropping (Hash c)) s1)
         | Inr (Unknown action) \<Rightarrow> processCommits P cs (klog (LogUnknown (Hash c) action) s1))"

text \<open>
  \<open>Run\<close>, with the two fields of the \<open>Apply\<close> value it reads as arguments. The result
  is the error returned (\<open>None\<close> for nil), or the panic that ended the run.
\<close>

definition Run :: "'w Ports \<Rightarrow> string \<Rightarrow> string \<Rightarrow> 'w state \<Rightarrow> fault option \<times> 'w state" where
  "Run P fromRef repositoryDir s =
     (case call (OpenGit P repositoryDir) (CallOpenGit repositoryDir) s of
        (Some err, s1) \<Rightarrow> (Some (Error err), s1)
      | (None, s1) \<Rightarrow>
          (case call (GetCommits P fromRef repositoryDir) (CallGetCommits fromRef repositoryDir) s1 of
             (Inl err, s2) \<Rightarrow> (Some (Error (Wrapf ''Error reading carries'' err)), s2)
           | (Inr commits, s2) \<Rightarrow>
               (let branchName = ''rebase-'' @ DateOnly P (fst s2)
                in case call (CreateBranch P branchName ''refs/remotes/upstream/master'')
                          (CallCreateBranch branchName ''refs/remotes/upstream/master'') s2 of
                     (Some err, s3) \<Rightarrow>
                       (Some (Error (Wrapf ''Error creating rebase branch'' err)), s3)
                   | (None, s3) \<Rightarrow>
                       (case call (Merge P ''openshift/master'') (CallMerge ''openshift/master'') s3 of
                          (Some err, s4) \<Rightarrow>
                            (Some (Error (Wrapf ''Error creating rebase branch'' err)), s4)
                        | (None, s4) \<Rightarrow> processCommits P commits s4))))"

section \<open>package git: \<open>CheckRemotes\<close> and \<open>Log\<close>\<close>

text \<open>
  The functions of package git are modelled by their results; the \<open>klog\<close> lines they
  write have no influence on them and are left out.
\<close>

text \<open>\<open>strings.Contains\<close>: the second string occurs in the first as a contiguous run.\<close>

definition Contains :: "string \<Rightarrow> string \<Rightarrow> bool" where
  "Contains s substr = sublist substr s"

text \<open>
  \<open>remoteOf name\<close> stands for \<open>git.repository.Remote(name)\<close> followed by
  \<open>Config().URLs\<close>: an error when the remote does not exist, its configured URLs
  otherwise.
\<close>

definition fetchURLForRemote :: "(string \<Rightarrow> error + string list) \<Rightarrow> string \<Rightarrow> error + string" where
  "fetchURLForRemote remoteOf remoteName =
     (case remoteOf remoteName of
        Inl err \<Rightarrow> Inl err
      | Inr urls \<Rightarrow>
          if length urls = 0 then Inl (Errorf (''no fetch URLs, remote='' @ remoteName))
          else Inr (urls ! 0))"

fun checkRemotesLoop :: "(string \<Rightarrow> error + string list) \<Rightarrow> (string \<times> string) list \<Rightarrow> error option" where
  "checkRemotesLoop remoteOf [] = None"
| "checkRemotesLoop remoteOf ((name, path) # rest) =
     (case fetchURLForRemote remoteOf name of
        Inl err \<Rightarrow> Some err
      | Inr fetchURL \<Rightarrow>
          if \<not> Contains fetchURL path
          then Some (Errorf (''fetch URL does not match, remote='' @ name @ '' path='' @ path))
          else checkRemotesLoop remoteOf rest)"

definition CheckRemotes :: "(string \<Rightarrow> error + string list) \<Rightarrow> error option" where
  "CheckRemotes remoteOf =
     checkRemotesLoop remoteOf
       [(''openshift'', ''github.com:openshift/kubernetes.git''),
        (''upstream'', ''github.com:kubernetes/kubernetes.git'')]"

text \<open>
  The commit iterator of go-git is the finite sequence of commits its \<open>Next\<close> yields
  and the error that ends it: \<open>io.EOF\<close> at the end of history, another error when the
  walk breaks.
\<close>

definition EOF :: error where
  "EOF = External ''EOF''"

text \<open>The loop of \<open>Log\<close>; \<open>commits\<close> is the slice built so far.\<close>

fun logLoop :: "Commit list \<Rightarrow> error \<Rightarrow> string \<Rightarrow> Commit list \<Rightarrow> error + Commit list" where
  "logLoop [] fin stopAtHash commits =
     (if fin = EOF then Inr commits
      else Inl (Wrapf ''iterating through commit log failed'' fin))"
| "logLoop (commit # rest) fin stopAtHash commits =
     (let commits' = commits @ [commit]
      in if Hash commit = stopAtHash then Inr commits'
         else logLoop rest fin stopAtHash commits')"

definition ZeroHash :: string where
  "ZeroHash = replicate 40 (CHR ''0'')"

text \<open>
  \<open>Log\<close>. \<open>NewHash\<close> is \<open>plumbing.NewHash\<close> and \<open>repositoryLog\<close> is
  \<open>git.repository.Log\<close>, given the \<open>From\<close> field of the options (the zero hash when
  \<open>from\<close> is empty).
\<close>

definition Log ::
  "(string \<Rightarrow> string) \<Rightarrow> (string \<Rightarrow> error + Commit list \<times> error) \<Rightarrow> string \<Rightarrow> string
     \<Rightarrow> error + Commit list" where
  "Log NewHash repositoryLog fromRef stopAtHash =
     (let oFrom = (if length fromRef > 0 then NewHash fromRef else ZeroHash)
      in case repositoryLog oFrom of
           Inl err \<Rightarrow> Inl (Wrapf ''git log failed'' err)
         | Inr (iter, fin) \<Rightarrow> logLoop iter fin stopAtHash [])"

section \<open>Notions the properties are stated with\<close>

text \<open>
  The tag \<open>UPSTREAM: a:\<close> stands at byte \<open>i\<close> of a message, for a non-empty action
  \<open>a\<close> of class characters. This is the language of the regular expression, written
  without reference to the matcher above.
\<close>

definition tagAt :: "string \<Rightarrow> nat \<Rightarrow> string \<Rightarrow> bool" where
  "tagAt message i a =
     (a \<noteq> [] \<and> list_all isActionChar a \<and> prefix (''UPSTREAM: '' @ a @ '':'') (drop i message))"

text \<open>The first (leftmost) tag of a message carries the action \<open>a\<close>.\<close>

definition firstTag :: "string \<Rightarrow> string \<Rightarrow> bool" where
  "firstTag message a = (\<exists>i. tagAt message i a \<and> (\<forall>j<i. \<forall>b. \<not> tagAt message j b))"

text \<open>Event \<open>a\<close> occurs in a trace before the first occurrence of event \<open>b\<close>.\<close>

definition precedes :: "Event \<Rightarrow> Event \<Rightarrow> Event list \<Rightarrow> bool" where
  "precedes a b tr = (a \<in> set (takeWhile (\<lambda>e. e \<noteq> b) tr))"

text \<open>
  A small concrete world for evaluating the functions: every repository operation
  succeeds except that \<open>CherryPick\<close> conflicts on the hashes \<open>conflicts\<close> selects,
  \<open>Status\<close> fails when \<open>statusFails\<close>, and the patch store holds exactly the paths
  \<open>stored\<close> selects. The world has no state of its own.
\<close>

definition samplePorts :: "Commit list \<Rightarrow> (string \<Rightarrow> bool) \<Rightarrow> bool \<Rightarrow> (string \<Rightarrow> bool) \<Rightarrow> unit Ports" where
  "samplePorts commits conflicts statusFails stored =
     \<lparr> OpenGit = (\<lambda>_ w. (None, w)),
       GetCommits = (\<lambda>_ _ w. (Inr commits, w)),
       DateOnly = (\<lambda>_. ''2024-05-01''),
       CreateBranch = (\<lambda>_ _ w. (None, w)),
       Merge = (\<lambda>_ w. (None, w)),
       CherryPick = (\<lambda>sha w.
         (if conflicts sha then Some (Wrapf ''git cherry-pick failed'' (External ''exit status 1''))
          else None, w)),
       Status = (\<lambda>w. (if statusFails then Some (External ''exit status 128'') else None, w)),
       AbortCherryPick = (\<lambda>w. (None, w)),
       Apply = (\<lambda>_ w. (None, w)),
       Getwd = (\<lambda>w. (Inr ''/work'', w)),
       Stat = (\<lambda>p w. (if stored p then None else Some (External ''no such file or directory''), w)),
       Join = (\<lambda>parts. case parts of [] \<Rightarrow> [] | p # ps \<Rightarrow> foldl (\<lambda>a b. a @ ''/'' @ b) p ps),
       FormatMessage = (\<lambda>m. m) \<rparr>"

text \<open>Four commits for the evaluations below; the last one carries no tag.\<close>

definition commitA :: Commit where
  "commitA = \<lparr> Hash = ''a1'', Message = ''UPSTREAM: <drop>: old fix'' \<rparr>"

definition commitB :: Commit where
  "commitB = \<lparr> Hash = ''b2'', Message = ''UPSTREAM: <carry>: keep the patch'' \<rparr>"

definition commitC :: Commit where
  "commitC = \<lparr> Hash = ''c3'', Message = ''UPSTREAM: revert: undo'' \<rparr>"

definition commitD :: Commit where
  "commitD = \<lparr> Hash = ''d4'', Message = ''Merge branch master'' \<rparr>"

text \<open>
  The same remotes with every URL but the first of each removed: what a function
  that reads only first URLs cannot tell from the original.
\<close>

definition firstURLOnly :: "(string \<Rightarrow> error + string list) \<Rightarrow> string \<Rightarrow> error + string list" where
  "firstURLOnly remoteOf name =
     (case remoteOf name of Inl err \<Rightarrow> Inl err | Inr urls \<Rightarrow> Inr (take 1 urls))"

text \<open>A repository with the two expected remotes, the first with a second URL.\<close>

definition sampleRemotes :: "string \<Rightarrow> error + string list" where
  "sampleRemotes name =
     (if name = ''openshift''
      then Inr [''git@github.com:openshift/kubernetes.git'', ''https://example.org/mirror.git'']
      else if name = ''upstream'' then Inr [''git@github.com:kubernetes/kubernetes.git'']
      else Inl (External ''remote not found''))"

text \<open>A history of three commits that ends at the end of history.\<close>

definition sampleLog :: "string \<Rightarrow> error + Commit list \<times> error" where
  "sampleLog oFrom = Inr ([commitA, commitB, commitC], EOF)"

section \<open>Properties of the classifier\<close>

declare FindStringSubmatch.simps [simp del]

lemmas classifier_defs =
  classify_def actionFromMessage_def SubexpIndex_def matchHere_def
  isActionChar_def isWordChar_def AtoiOk_def isDigit_def digitsValue_def

text \<open>
  C1. The claim is that \<open>actionFromMessage\<close> returns a value for every message and
  that a message without a tag classifies as Unknown. On the message
  \<open>Merge branch master\<close>, which has no tag, \<open>FindStringSubmatch\<close> returns the nil
  slice, the guard \<open>lastIndex < 0\<close> does not fire (the index of the group is 1), and
  the read \<open>matches[1]\<close> panics: neither \<open>actionFromMessage\<close> nor the classification
  built on it returns a value.
\<close>

theorem actionFromMessage_panics_without_tag:
  "actionFromMessage ''Merge branch master'' = Inl (IndexOutOfRange 1 0)
   \<and> classify ''Merge branch master'' = Inl (IndexOutOfRange 1 0)"
  by (simp add: classifier_defs FindStringSubmatch.simps)

subsection \<open>The matcher finds exactly the first tag\<close>

lemma colon_not_action: "\<not> isActionChar (CHR '':'')"
  by (simp add: isActionChar_def isWordChar_def)

lemma matchHere_tag:
  assumes "a \<noteq> []" "list_all isActionChar a" "prefix (''UPSTREAM: '' @ a @ '':'') s"
  shows "matchHere s = Some (''UPSTREAM: '' @ a @ '':'', a)"
proof -
  from assms(3) obtain r where s: "s = ''UPSTREAM: '' @ a @ '':'' @ r"
    by (auto simp: prefix_def)
  have all: "\<And>x. x \<in> set a \<Longrightarrow> isActionChar x"
    using assms(2) by (simp add: list_all_iff)
  have tw: "takeWhile isActionChar (a @ '':'' @ r) = a"
    using all by (simp add: colon_not_action)
  have dw: "dropWhile isActionChar (a @ '':'' @ r) = '':'' @ r"
    using all by (simp add: colon_not_action)
  show ?thesis
    unfolding matchHere_def s using assms(1) tw dw by (simp add: Let_def)
qed

lemma matchHere_SomeD:
  assumes "matchHere s = Some (w, a)"
  shows "tagAt s 0 a \<and> w = ''UPSTREAM: '' @ a @ '':''"
proof -
  from assms have p: "prefix ''UPSTREAM: '' s"
    by (auto simp: matchHere_def split: if_splits)
  then obtain rest where s: "s = ''UPSTREAM: '' @ rest"
    by (auto simp: prefix_def)
  from assms s have a: "a = takeWhile isActionChar rest" and ne: "a \<noteq> []"
    and c: "take 1 (dropWhile isActionChar rest) = '':''"
    and w: "w = ''UPSTREAM: '' @ a @ '':''"
    by (auto simp: matchHere_def Let_def split: if_splits)
  from c obtain r where d: "dropWhile isActionChar rest = '':'' @ r"
    by (cases "dropWhile isActionChar rest") auto
  have "rest = a @ '':'' @ r"
    using takeWhile_dropWhile_id[of isActionChar rest] a d by simp
  moreover have "list_all isActionChar a"
    unfolding a list_all_iff by (auto dest: set_takeWhileD)
  ultimately show ?thesis
    using ne w s by (simp add: tagAt_def)
qed

lemma matchHere_None_iff: "matchHere s = None \<longleftrightarrow> (\<forall>b. \<not> tagAt s 0 b)"
proof
  assume n: "matchHere s = None"
  show "\<forall>b. \<not> tagAt s 0 b"
  proof (intro allI notI)
    fix b assume "tagAt s 0 b"
    then have "matchHere s = Some (''UPSTREAM: '' @ b @ '':'', b)"
      by (intro matchHere_tag) (simp_all add: tagAt_def)
    with n show False by simp
  qed
next
  assume a: "\<forall>b. \<not> tagAt s 0 b"
  show "matchHere s = None"
  proof (cases "matchHere s")
    case None then show ?thesis .
  next
    case (Some p)
    then obtain w b where "matchHere s = Some (w, b)" by (cases p) auto
    from matchHere_SomeD[OF this] a show ?thesis by blast
  qed
qed

lemma tagAt_Suc: "tagAt (x # t) (Suc i) a = tagAt t i a"
  by (simp add: tagAt_def)

lemma tagAt_nonempty: "tagAt s i a \<Longrightarrow> s \<noteq> []"
  by (auto simp: tagAt_def)

lemma FindStringSubmatch_at:
  "tagAt s i a \<Longrightarrow> (\<forall>j<i. \<forall>b. \<not> tagAt s j b)
     \<Longrightarrow> FindStringSubmatch s = [''UPSTREAM: '' @ a @ '':'', a]"
proof (induction i arbitrary: s)
  case 0
  then have "matchHere s = Some (''UPSTREAM: '' @ a @ '':'', a)"
    by (intro matchHere_tag) (simp_all add: tagAt_def)
  then show ?case by (subst FindStringSubmatch.simps) simp
next
  case (Suc i)
  from Suc.prems(1) obtain x t where s: "s = x # t"
    by (cases s) (auto dest: tagAt_nonempty)
  from Suc.prems(2) have "\<forall>b. \<not> tagAt s 0 b" by blast
  then have none: "matchHere s = None" by (simp add: matchHere_None_iff)
  have t: "tagAt t i a" using Suc.prems(1) by (simp add: s tagAt_Suc)
  have "\<forall>j<i. \<forall>b. \<not> tagAt t j b"
  proof (intro allI impI)
    fix j b assume "j < i"
    then have "\<not> tagAt s (Suc j) b" using Suc.prems(2) by simp
    then show "\<not> tagAt t j b" by (simp add: s tagAt_Suc)
  qed
  from Suc.IH[OF t this] none show ?case
    by (subst FindStringSubmatch.simps) (simp add: s)
qed

lemma FindStringSubmatch_none:
  "(\<forall>i b. \<not> tagAt s i b) \<Longrightarrow> FindStringSubmatch s = []"
proof (induction s)
  case Nil
  then have "matchHere [] = None" by (simp add: matchHere_None_iff)
  then show ?case by (subst FindStringSubmatch.simps) simp
next
  case (Cons x t)
  then have "matchHere (x # t) = None" by (simp add: matchHere_None_iff)
  moreover have "\<forall>i b. \<not> tagAt t i b"
    using Cons.prems tagAt_Suc[of x t] by blast
  ultimately show ?case using Cons.IH
    by (subst FindStringSubmatch.simps) simp
qed

lemma actionFromMessage_firstTag:
  "firstTag message a \<Longrightarrow> actionFromMessage message = Inr a"
  by (auto simp: firstTag_def actionFromMessage_def SubexpIndex_def dest!: FindStringSubmatch_at)

text \<open>
  The panic of C1 is not particular to one message: every message in which no tag
  stands anywhere makes \<open>actionFromMessage\<close> panic.
\<close>

lemma actionFromMessage_no_tag:
  "(\<forall>i b. \<not> tagAt message i b) \<Longrightarrow> actionFromMessage message = Inl (IndexOutOfRange 1 0)"
  by (simp add: actionFromMessage_def SubexpIndex_def FindStringSubmatch_none)

lemma firstTag_0: "tagAt message 0 a \<Longrightarrow> firstTag message a"
  by (auto simp: firstTag_def)

lemma AtoiOk_drop: "\<not> AtoiOk ''<drop>''"
  by (simp add: AtoiOk_def isDigit_def)

lemma AtoiOk_42: "AtoiOk ''42''"
  by (simp add: AtoiOk_def isDigit_def digitsValue_def)

subsection \<open>Classification by the first tag\<close>

text \<open>
  C3, as the code has it. The action text includes the angle brackets, and only the
  first tag of the message counts: a message whose first tag is \<open>UPSTREAM: <carry>:\<close>
  classifies as Carry, one whose first tag is \<open>UPSTREAM: <drop>:\<close> as Drop, one whose
  first tag is \<open>UPSTREAM: 42:\<close> as Carry, and one whose first tag names any other
  action that \<open>strconv.Atoi\<close> refuses as Unknown. Nothing is said here about a
  message without any tag.
\<close>

theorem classify_by_first_tag:
  "(firstTag message ''<carry>'' \<longrightarrow> classify message = Inr Carry)
   \<and> (firstTag message ''<drop>'' \<longrightarrow> classify message = Inr Drop)
   \<and> (firstTag message ''42'' \<longrightarrow> classify message = Inr Carry)
   \<and> (\<forall>a. firstTag message a \<and> a \<noteq> ''<carry>'' \<and> a \<noteq> ''<drop>'' \<and> \<not> AtoiOk a
          \<longrightarrow> classify message = Inr (Unknown a))"
proof (intro conjI impI allI)
  assume "firstTag message ''<carry>''"
  then show "classify message = Inr Carry"
    by (simp add: classify_def actionFromMessage_firstTag)
next
  assume "firstTag message ''<drop>''"
  then show "classify message = Inr Drop"
    by (simp add: classify_def actionFromMessage_firstTag AtoiOk_drop)
next
  assume "firstTag message ''42''"
  then show "classify message = Inr Carry"
    by (simp add: classify_def actionFromMessage_firstTag AtoiOk_42)
next
  fix a
  assume "firstTag message a \<and> a \<noteq> ''<carry>'' \<and> a \<noteq> ''<drop>'' \<and> \<not> AtoiOk a"
  then have "actionFromMessage message = Inr a" and "a \<noteq> ''<carry>''"
    and "a \<noteq> ''<drop>''" and "\<not> AtoiOk a"
    by (simp_all add: actionFromMessage_firstTag)
  then show "classify message = Inr (Unknown a)"
    by (simp add: classify_def)
qed

text \<open>
  The four cases at concrete messages; in the second the first tag stands at byte 8
  and a numeric tag follows it.
\<close>

theorem classify_by_first_tag_witness:
  "firstTag ''UPSTREAM: <carry>: keep the patch'' ''<carry>''
   \<and> classify ''UPSTREAM: <carry>: keep the patch'' = Inr Carry
   \<and> firstTag ''Fix it. UPSTREAM: <drop>: UPSTREAM: 42: x'' ''<drop>''
   \<and> classify ''Fix it. UPSTREAM: <drop>: UPSTREAM: 42: x'' = Inr Drop
   \<and> firstTag ''UPSTREAM: 42: pick'' ''42''
   \<and> classify ''UPSTREAM: 42: pick'' = Inr Carry
   \<and> firstTag ''UPSTREAM: revert: undo'' ''revert''
   \<and> ''revert'' \<noteq> ''<carry>'' \<and> ''revert'' \<noteq> ''<drop>'' \<and> \<not> AtoiOk ''revert''
   \<and> classify ''UPSTREAM: revert: undo'' = Inr (Unknown ''revert'')"
proof -
  have h1: "firstTag ''UPSTREAM: <carry>: keep the patch'' ''<carry>''"
    by (rule firstTag_0) (simp add: tagAt_def isActionChar_def isWordChar_def)
  have h2: "firstTag ''Fix it. UPSTREAM: <drop>: UPSTREAM: 42: x'' ''<drop>''"
    unfolding firstTag_def
    apply (rule exI[of _ 8])
    apply (simp add: tagAt_def isActionChar_def isWordChar_def)
    apply (simp add: less_Suc_eq numeral_eq_Suc)
    done
  have h3: "firstTag ''UPSTREAM: 42: pick'' ''42''"
    by (rule firstTag_0) (simp add: tagAt_def isActionChar_def isWordChar_def)
  have h4: "firstTag ''UPSTREAM: revert: undo'' ''revert''"
    by (rule firstTag_0) (simp add: tagAt_def isActionChar_def isWordChar_def)
  have n4: "\<not> AtoiOk ''revert''"
    by (simp add: AtoiOk_def isDigit_def)
  from classify_by_first_tag[of "''UPSTREAM: <carry>: keep the patch''"] h1
  have c1: "classify ''UPSTREAM: <carry>: keep the patch'' = Inr Carry" by blast
  from classify_by_first_tag[of "''Fix it. UPSTREAM: <drop>: UPSTREAM: 42: x''"] h2
  have c2: "classify ''Fix it. UPSTREAM: <drop>: UPSTREAM: 42: x'' = Inr Drop" by blast
  from classify_by_first_tag[of "''UPSTREAM: 42: pick''"] h3
  have c3: "classify ''UPSTREAM: 42: pick'' = Inr Carry" by blast
  from classify_by_first_tag[of "''UPSTREAM: revert: undo''"] h4 n4
  have c4: "classify ''UPSTREAM: revert: undo'' = Inr (Unknown ''revert'')" by simp
  from h1 h2 h3 h4 n4 c1 c2 c3 c4 show ?thesis by simp
qed

text \<open>
  The claim as written fails twice. A message that contains \<open>UPSTREAM: carry:\<close>,
  without angle brackets, takes the default arm of the switch; and a message that
  contains \<open>UPSTREAM: 42:\<close> after an earlier tag is classified by the earlier tag.
\<close>

theorem classify_containing_counterexample:
  "sublist ''UPSTREAM: carry:'' ''UPSTREAM: carry: keep the patch''
   \<and> classify ''UPSTREAM: carry: keep the patch'' = Inr (Unknown ''carry'')
   \<and> sublist ''UPSTREAM: 42:'' ''UPSTREAM: <drop>: UPSTREAM: 42: x''
   \<and> classify ''UPSTREAM: <drop>: UPSTREAM: 42: x'' = Inr Drop"
proof -
  have "sublist ''UPSTREAM: 42:'' (''UPSTREAM: <drop>: '' @ ''UPSTREAM: 42:'' @ '' x'')"
    by (rule sublist_appendI)
  then show ?thesis
    by (simp add: classifier_defs FindStringSubmatch.simps)
qed

section \<open>Properties of \<open>carryFlow\<close>\<close>

lemma call_eq: "port w = (r, w') \<Longrightarrow> call port ev (w, tr) = (r, (w', tr @ [ev]))"
  by (simp add: call_def)

lemma klog_eq: "klog ev (w, tr) = (w, tr @ [ev])"
  by (simp add: klog_def)

lemma call_traceD: "call port ev s = (r, s') \<Longrightarrow> snd s' = snd s @ [ev]"
  by (auto simp: call_def split: prod.splits)

lemma klog_trace: "snd (klog ev s) = snd s @ [ev]"
  by (simp add: klog_def)

lemma findFixedCarry_trace: "prefix (snd s) (snd (snd (findFixedCarry P sha s)))"
proof -
  obtain r1 s1 where c1: "call (Getwd P) CallGetwd s = (r1, s1)" by (metis surj_pair)
  then have t1: "snd s1 = snd s @ [CallGetwd]" by (rule call_traceD)
  show ?thesis
  proof (cases r1)
    case (Inl err)
    then show ?thesis using c1 t1 by (simp add: findFixedCarry_def)
  next
    case (Inr cwd)
    obtain r2 s2 where c2: "call (Stat P (Join P [cwd, ''carries'', sha]))
        (CallStat (Join P [cwd, ''carries'', sha])) s1 = (r2, s2)" by (metis surj_pair)
    then have "snd s2 = snd s1 @ [CallStat (Join P [cwd, ''carries'', sha])]"
      by (rule call_traceD)
    then show ?thesis using Inr c1 c2 t1
      by (cases r2) (simp_all add: findFixedCarry_def)
  qed
qed

lemmas sample_defs =
  samplePorts_def commitA_def commitB_def commitC_def commitD_def

lemmas flow_defs = carryFlow_def findFixedCarry_def call_def klog_def

lemma carryFlow_trace: "prefix (snd s) (snd (snd (carryFlow P c s)))"
  by (auto simp: carryFlow_def findFixedCarry_def call_def klog_def Let_def prefix_def
           split: prod.splits option.splits sum.splits)

text \<open>
  C7. When the cherry-pick of the commit succeeds, \<open>carryFlow\<close> returns nil at once:
  the trace grows by the opening log line and the one \<open>CherryPick\<close> call, so neither
  \<open>Status\<close>, \<open>AbortCherryPick\<close>, the lookup (\<open>Getwd\<close>, \<open>Stat\<close>) nor \<open>Apply\<close> is
  called, and the world is the one \<open>CherryPick\<close> left.
\<close>

theorem carryFlow_clean_pick:
  assumes "CherryPick P (Hash commit) w = (None, w1)"
  shows "carryFlow P commit (w, tr) =
           (None, (w1, tr @ [LogInitiating (Hash commit), CallCherryPick (Hash commit)]))"
  using assms by (simp add: carryFlow_def klog_eq call_eq)

theorem carryFlow_clean_pick_witness:
  "CherryPick (samplePorts [] (\<lambda>_. False) False (\<lambda>_. False)) (Hash commitB) () = (None, ())
   \<and> carryFlow (samplePorts [] (\<lambda>_. False) False (\<lambda>_. False)) commitB ((), []) =
       (None, ((), [LogInitiating ''b2'', CallCherryPick ''b2'']))"
proof -
  have h: "CherryPick (samplePorts [] (\<lambda>_. False) False (\<lambda>_. False)) (Hash commitB) () = (None, ())"
    by (simp add: sample_defs)
  from carryFlow_clean_pick[OF h, of "[]"] h show ?thesis
    by (simp add: commitB_def)
qed

text \<open>
  C2, as the code has it. When the cherry-pick fails, \<open>carryFlow\<close> calls \<open>Status\<close>
  first. If \<open>Status\<close> succeeds, the next call is \<open>AbortCherryPick\<close>, before anything
  else and so before any lookup in the patch store. If \<open>Status\<close> fails, \<open>carryFlow\<close>
  returns that error with the trace ending at the \<open>Status\<close> call: no abort, no lookup.
\<close>

theorem carryFlow_status_then_abort:
  assumes "CherryPick P (Hash commit) w = (Some e, w1)"
  shows "(\<forall>err w2. Status P w1 = (Some err, w2) \<longrightarrow>
            carryFlow P commit (w, tr) =
              (Some err, (w2, tr @ [LogInitiating (Hash commit), CallCherryPick (Hash commit),
                                    LogProblems (Hash commit), CallStatus])))
       \<and> (\<forall>w2. Status P w1 = (None, w2) \<longrightarrow>
            (\<exists>rest. snd (snd (carryFlow P commit (w, tr))) =
               tr @ [LogInitiating (Hash commit), CallCherryPick (Hash commit),
                     LogProblems (Hash commit), CallStatus, CallAbortCherryPick] @ rest))"
proof (intro conjI allI impI)
  fix err w2 assume "Status P w1 = (Some err, w2)"
  with assms show "carryFlow P commit (w, tr) =
      (Some err, (w2, tr @ [LogInitiating (Hash commit), CallCherryPick (Hash commit),
                            LogProblems (Hash commit), CallStatus]))"
    by (simp add: carryFlow_def klog_eq call_eq)
next
  fix w2 assume st: "Status P w1 = (None, w2)"
  let ?ev = "[LogInitiating (Hash commit), CallCherryPick (Hash commit),
              LogProblems (Hash commit), CallStatus, CallAbortCherryPick]"
  obtain r3 w3 where ab: "AbortCherryPick P w2 = (r3, w3)" by (metis surj_pair)
  have "\<exists>rest. snd (snd (carryFlow P commit (w, tr))) = tr @ ?ev @ rest"
  proof (cases r3)
    case (Some err)
    with assms st ab have "snd (snd (carryFlow P commit (w, tr))) = tr @ ?ev @ []"
      by (simp add: carryFlow_def klog_eq call_eq)
    then show ?thesis by blast
  next
    case None
    let ?s3 = "(w3, tr @ ?ev @ [LogLooking])"
    obtain r4 s4 where ff: "findFixedCarry P (Hash commit) ?s3 = (r4, s4)"
      by (metis surj_pair)
    from findFixedCarry_trace[of ?s3 P "Hash commit"] ff
    obtain more where t4: "snd s4 = tr @ ?ev @ [LogLooking] @ more"
      by (auto simp: prefix_def)
    show ?thesis
    proof (cases r4)
      case (Inl err)
      with assms st ab None ff t4
      have "snd (snd (carryFlow P commit (w, tr))) =
              tr @ ?ev @ ([LogLooking] @ more @ [LogManualIntervention (Hash commit)])"
        by (simp add: carryFlow_def klog_eq call_eq klog_trace)
      then show ?thesis by blast
    next
      case (Inr patch)
      obtain r5 s5 where ap:
        "call (Apply P patch) (CallApply patch) (klog (LogFound patch) s4) = (r5, s5)"
        by (metis surj_pair)
      from call_traceD[OF ap] t4
      have t5: "snd s5 = tr @ ?ev @ ([LogLooking] @ more @ [LogFound patch, CallApply patch])"
        by (simp add: klog_trace)
      from assms st ab None ff Inr ap
      have "snd (carryFlow P commit (w, tr)) = s5"
        by (cases r5) (simp_all add: carryFlow_def klog_eq call_eq)
      with t5 show ?thesis by blast
    qed
  qed
  then show "\<exists>rest. snd (snd (carryFlow P commit (w, tr))) =
               tr @ [LogInitiating (Hash commit), CallCherryPick (Hash commit),
                     LogProblems (Hash commit), CallStatus, CallAbortCherryPick] @ rest" .
qed

theorem carryFlow_status_then_abort_witness:
  "CherryPick (samplePorts [] (\<lambda>_. True) True (\<lambda>_. False)) (Hash commitB) ()
     = (Some (Wrapf ''git cherry-pick failed'' (External ''exit status 1'')), ())
   \<and> Status (samplePorts [] (\<lambda>_. True) True (\<lambda>_. False)) () = (Some (External ''exit status 128''), ())
   \<and> carryFlow (samplePorts [] (\<lambda>_. True) True (\<lambda>_. False)) commitB ((), []) =
       (Some (External ''exit status 128''),
        ((), [LogInitiating ''b2'', CallCherryPick ''b2'', LogProblems ''b2'', CallStatus]))
   \<and> CherryPick (samplePorts [] (\<lambda>_. True) False (\<lambda>_. False)) (Hash commitB) ()
     = (Some (Wrapf ''git cherry-pick failed'' (External ''exit status 1'')), ())
   \<and> Status (samplePorts [] (\<lambda>_. True) False (\<lambda>_. False)) () = (None, ())
   \<and> (\<exists>rest. snd (snd (carryFlow (samplePorts [] (\<lambda>_. True) False (\<lambda>_. False)) commitB ((), []))) =
        [LogInitiating ''b2'', CallCherryPick ''b2'', LogProblems ''b2'', CallStatus,
         CallAbortCherryPick] @ rest)"
proof -
  let ?F = "samplePorts [] (\<lambda>_. True) True (\<lambda>_. False)"
  let ?G = "samplePorts [] (\<lambda>_. True) False (\<lambda>_. False)"
  let ?e = "Wrapf ''git cherry-pick failed'' (External ''exit status 1'')"
  have f1: "CherryPick ?F (Hash commitB) () = (Some ?e, ())"
    and f2: "Status ?F () = (Some (External ''exit status 128''), ())"
    and g1: "CherryPick ?G (Hash commitB) () = (Some ?e, ())"
    and g2: "Status ?G () = (None, ())"
    by (simp_all add: sample_defs)
  from carryFlow_status_then_abort[OF f1, of "[]"] f2
  have a: "carryFlow ?F commitB ((), []) =
       (Some (External ''exit status 128''),
        ((), [LogInitiating ''b2'', CallCherryPick ''b2'', LogProblems ''b2'', CallStatus]))"
    by (simp add: commitB_def)
  from carryFlow_status_then_abort[OF g1, of "[]"] g2
  have b: "\<exists>rest. snd (snd (carryFlow ?G commitB ((), []))) =
        [LogInitiating ''b2'', CallCherryPick ''b2'', LogProblems ''b2'', CallStatus,
         CallAbortCherryPick] @ rest"
    by (simp add: commitB_def)
  from f1 f2 g1 g2 a b show ?thesis by simp
qed

text \<open>
  The claim as written fails where the status capture fails: the cherry-pick of
  \<open>commitB\<close> conflicts, \<open>Status\<close> returns an error, and \<open>carryFlow\<close> returns without
  ever calling \<open>AbortCherryPick\<close>.
\<close>

theorem carryFlow_abort_skipped_counterexample:
  "fst (CherryPick (samplePorts [] (\<lambda>_. True) True (\<lambda>_. False)) (Hash commitB) ()) \<noteq> None
   \<and> fst (Status (samplePorts [] (\<lambda>_. True) True (\<lambda>_. False)) ()) \<noteq> None
   \<and> CallAbortCherryPick \<notin>
       set (snd (snd (carryFlow (samplePorts [] (\<lambda>_. True) True (\<lambda>_. False)) commitB ((), []))))"
  by (simp add: sample_defs flow_defs)

text \<open>
  C5, as the code has it. The lookup is reached when the cherry-pick has failed and
  both \<open>Status\<close> and \<open>AbortCherryPick\<close> have succeeded. Then, with \<open>cwd\<close> the working
  directory, the one path consulted is \<open>Join [cwd, carries, hash]\<close>. If a file stands
  there, \<open>carryFlow\<close> applies exactly that path and returns what \<open>Apply\<close> returns, nil
  or its error, with \<open>Apply\<close> the last call made. If none stands there, \<open>carryFlow\<close>
  logs the manual-intervention line with the hash of the commit and returns the
  error of the lookup.
\<close>

theorem carryFlow_patch_lookup:
  assumes "CherryPick P (Hash commit) w = (Some e, w1)"
      and "Status P w1 = (None, w2)"
      and "AbortCherryPick P w2 = (None, w3)"
      and "Getwd P w3 = (Inr cwd, w4)"
      and "path = Join P [cwd, ''carries'', Hash commit]"
      and "pre = [LogInitiating (Hash commit), CallCherryPick (Hash commit),
                  LogProblems (Hash commit), CallStatus, CallAbortCherryPick,
                  LogLooking, CallGetwd, CallStat path]"
  shows "(\<forall>w5 r w6. Stat P path w4 = (None, w5) \<and> Apply P path w5 = (r, w6) \<longrightarrow>
            carryFlow P commit (w, tr) =
              (r, (w6, tr @ pre @ [LogFound path, CallApply path])))
       \<and> (\<forall>err w5. Stat P path w4 = (Some err, w5) \<longrightarrow>
            carryFlow P commit (w, tr) =
              (Some err, (w5, tr @ pre @ [LogManualIntervention (Hash commit)])))"
proof (intro conjI allI impI)
  fix w5 r w6
  assume "Stat P path w4 = (None, w5) \<and> Apply P path w5 = (r, w6)"
  then have st: "Stat P path w4 = (None, w5)" and ap: "Apply P path w5 = (r, w6)"
    by simp_all
  from assms(4,5) st have "findFixedCarry P (Hash commit)
      (w3, tr @ [LogInitiating (Hash commit), CallCherryPick (Hash commit),
                  LogProblems (Hash commit), CallStatus, CallAbortCherryPick, LogLooking])
      = (Inr path, (w5, tr @ pre))"
    by (simp add: findFixedCarry_def call_eq assms(6) Let_def)
  with assms(1-3) ap show "carryFlow P commit (w, tr) =
      (r, (w6, tr @ pre @ [LogFound path, CallApply path]))"
    by (cases r) (simp_all add: carryFlow_def klog_eq call_eq)
next
  fix err w5
  assume st: "Stat P path w4 = (Some err, w5)"
  from assms(4,5) st have "findFixedCarry P (Hash commit)
      (w3, tr @ [LogInitiating (Hash commit), CallCherryPick (Hash commit),
                  LogProblems (Hash commit), CallStatus, CallAbortCherryPick, LogLooking])
      = (Inl err, (w5, tr @ pre))"
    by (simp add: findFixedCarry_def call_eq assms(6) Let_def)
  with assms(1-3) show "carryFlow P commit (w, tr) =
      (Some err, (w5, tr @ pre @ [LogManualIntervention (Hash commit)]))"
    by (simp add: carryFlow_def klog_eq call_eq)
qed

theorem carryFlow_patch_lookup_witness:
  "carryFlow (samplePorts [] (\<lambda>_. True) False (\<lambda>p. p = ''/work/carries/b2'')) commitB ((), []) =
     (None, ((), [LogInitiating ''b2'', CallCherryPick ''b2'', LogProblems ''b2'', CallStatus,
                  CallAbortCherryPick, LogLooking, CallGetwd, CallStat ''/work/carries/b2'',
                  LogFound ''/work/carries/b2'', CallApply ''/work/carries/b2'']))
   \<and> carryFlow (samplePorts [] (\<lambda>_. True) False (\<lambda>_. False)) commitB ((), []) =
     (Some (External ''no such file or directory''),
      ((), [LogInitiating ''b2'', CallCherryPick ''b2'', LogProblems ''b2'', CallStatus,
            CallAbortCherryPick, LogLooking, CallGetwd, CallStat ''/work/carries/b2'',
            LogManualIntervention ''b2'']))"
proof -
  let ?H = "samplePorts [] (\<lambda>_. True) False (\<lambda>p. p = ''/work/carries/b2'')"
  let ?M = "samplePorts [] (\<lambda>_. True) False (\<lambda>_. False)"
  let ?e = "Wrapf ''git cherry-pick failed'' (External ''exit status 1'')"
  let ?path = "''/work/carries/b2''"
  let ?pre = "[LogInitiating ''b2'', CallCherryPick ''b2'', LogProblems ''b2'', CallStatus,
               CallAbortCherryPick, LogLooking, CallGetwd, CallStat ?path]"
  have h1: "CherryPick ?H (Hash commitB) () = (Some ?e, ())"
    and h2: "Status ?H () = (None, ())"
    and h3: "AbortCherryPick ?H () = (None, ())"
    and h4: "Getwd ?H () = (Inr ''/work'', ())"
    and h5: "?path = Join ?H [''/work'', ''carries'', Hash commitB]"
    and h6: "?pre = [LogInitiating (Hash commitB), CallCherryPick (Hash commitB),
                  LogProblems (Hash commitB), CallStatus, CallAbortCherryPick,
                  LogLooking, CallGetwd, CallStat ?path]"
    and h7: "Stat ?H ?path () = (None, ())"
    and h8: "Apply ?H ?path () = (None, ())"
    by (simp_all add: sample_defs)
  have m1: "CherryPick ?M (Hash commitB) () = (Some ?e, ())"
    and m2: "Status ?M () = (None, ())"
    and m3: "AbortCherryPick ?M () = (None, ())"
    and m4: "Getwd ?M () = (Inr ''/work'', ())"
    and m5: "?path = Join ?M [''/work'', ''carries'', Hash commitB]"
    and m7: "Stat ?M ?path () = (Some (External ''no such file or directory''), ())"
    by (simp_all add: sample_defs)
  from carryFlow_patch_lookup[OF h1 h2 h3 h4 h5 h6, of "[]"] h7 h8
  have a: "carryFlow ?H commitB ((), []) = (None, ((), ?pre @ [LogFound ?path, CallApply ?path]))"
    by simp
  from carryFlow_patch_lookup[OF m1 m2 m3 m4 m5 h6, of "[]"] m7
  have b: "carryFlow ?M commitB ((), []) =
     (Some (External ''no such file or directory''),
      ((), ?pre @ [LogManualIntervention (Hash commitB)]))"
    by simp
  from a b show ?thesis by (simp add: commitB_def)
qed

text \<open>
  The claim as written fails where the lookup is never reached: the cherry-pick of
  \<open>commitB\<close> conflicts and the store holds a patch at its key, but \<open>Status\<close> fails,
  and \<open>carryFlow\<close> returns that error without applying the patch.
\<close>

theorem carryFlow_patch_not_applied_counterexample:
  "fst (CherryPick (samplePorts [] (\<lambda>_. True) True (\<lambda>p. p = ''/work/carries/b2'')) (Hash commitB) ()) \<noteq> None
   \<and> Stat (samplePorts [] (\<lambda>_. True) True (\<lambda>p. p = ''/work/carries/b2'')) ''/work/carries/b2'' () = (None, ())
   \<and> fst (carryFlow (samplePorts [] (\<lambda>_. True) True (\<lambda>p. p = ''/work/carries/b2'')) commitB ((), []))
       = Some (External ''exit status 128'')
   \<and> CallApply ''/work/carries/b2'' \<notin>
       set (snd (snd (carryFlow (samplePorts [] (\<lambda>_. True) True (\<lambda>p. p = ''/work/carries/b2''))
                        commitB ((), []))))"
  by (simp add: sample_defs flow_defs)

section \<open>Properties of \<open>Run\<close>\<close>

lemma processCommits_trace: "prefix (snd s) (snd (snd (processCommits P cs s)))"
proof (induction cs arbitrary: s)
  case Nil
  show ?case by simp
next
  case (Cons c cs)
  let ?m = "FormatMessage P (Message c)"
  let ?s1 = "klog (LogProcessing (Hash c) ?m) s"
  have p1: "prefix (snd s) (snd ?s1)" by (simp add: klog_trace)
  show ?case
  proof (cases "classify ?m")
    case (Inl f)
    then show ?thesis using p1 by (simp add: Let_def)
  next
    case (Inr a)
    show ?thesis
    proof (cases a)
      case Carry
      obtain r2 s2 where cf: "carryFlow P c ?s1 = (r2, s2)" by (metis surj_pair)
      from carryFlow_trace[of ?s1 P c] cf have p2: "prefix (snd ?s1) (snd s2)" by simp
      show ?thesis
      proof (cases r2)
        case None
        from Cons.IH[of s2] p1 p2 have "prefix (snd s) (snd (snd (processCommits P cs s2)))"
          by (meson prefix_order.order_trans)
        with Inr Carry cf None show ?thesis by (simp add: Let_def)
      next
        case (Some err)
        from p1 p2 have "prefix (snd s) (snd s2)" by (meson prefix_order.order_trans)
        with Inr Carry cf Some show ?thesis by (simp add: Let_def)
      qed
    next
      case Drop
      let ?s2 = "klog (LogDropping (Hash c)) ?s1"
      have "prefix (snd s) (snd ?s2)" by (simp add: klog_trace)
      with Cons.IH[of ?s2] have "prefix (snd s) (snd (snd (processCommits P cs ?s2)))"
        by (meson prefix_order.order_trans)
      with Inr Drop show ?thesis by (simp add: Let_def)
    next
      case (Unknown action)
      let ?s2 = "klog (LogUnknown (Hash c) action) ?s1"
      have "prefix (snd s) (snd ?s2)" by (simp add: klog_trace)
      with Cons.IH[of ?s2] have "prefix (snd s) (snd (snd (processCommits P cs ?s2)))"
        by (meson prefix_order.order_trans)
      with Inr Unknown show ?thesis by (simp add: Let_def)
    qed
  qed
qed

lemma processCommits_append:
  "processCommits P (xs @ ys) s =
     (case processCommits P xs s of
        (None, s1) \<Rightarrow> processCommits P ys s1
      | (Some f, s1) \<Rightarrow> (Some f, s1))"
  by (induction xs arbitrary: s)
     (simp_all add: Let_def split: sum.splits Action.splits prod.splits option.splits)

lemma processCommits_halts:
  assumes "processCommits P before s = (None, s1)"
      and "classify (FormatMessage P (Message c)) = Inr Carry"
      and "carryFlow P c (klog (LogProcessing (Hash c) (FormatMessage P (Message c))) s1) = (Some err, s2)"
  shows "processCommits P (before @ c # after) s = (Some (Error err), s2)"
  using assms by (simp add: processCommits_append Let_def)

lemma Run_reaches_loop:
  assumes "OpenGit P dir w0 = (None, w1)"
      and "GetCommits P fromRef dir w1 = (Inr commits, w2)"
      and "CreateBranch P (''rebase-'' @ DateOnly P w2) ''refs/remotes/upstream/master'' w2 = (None, w3)"
      and "Merge P ''openshift/master'' w3 = (None, w4)"
  shows "Run P fromRef dir (w0, tr) =
           processCommits P commits
             (w4, tr @ [CallOpenGit dir, CallGetCommits fromRef dir,
                        CallCreateBranch (''rebase-'' @ DateOnly P w2) ''refs/remotes/upstream/master'',
                        CallMerge ''openshift/master''])"
  using assms by (simp add: Run_def call_eq Let_def)

text \<open>
  C4, as the code has it. \<open>Run\<close> opens the repository and reads the commit log first,
  then creates the branch \<open>rebase-<date>\<close> from \<open>refs/remotes/upstream/master\<close>, then
  merges \<open>openshift/master\<close>. A failure of the branch creation or of the merge ends
  the run there, with the error wrapped in \<open>Error creating rebase branch\<close>. Otherwise
  the loop over the commits starts from the state the merge left, so everything the
  loop does follows the merge in the trace.
\<close>

theorem Run_order:
  assumes "OpenGit P dir w0 = (None, w1)"
      and "GetCommits P fromRef dir w1 = (Inr commits, w2)"
      and "branchName = ''rebase-'' @ DateOnly P w2"
      and "pre = tr @ [CallOpenGit dir, CallGetCommits fromRef dir,
                       CallCreateBranch branchName ''refs/remotes/upstream/master'']"
  shows "(\<forall>err w3. CreateBranch P branchName ''refs/remotes/upstream/master'' w2 = (Some err, w3) \<longrightarrow>
            Run P fromRef dir (w0, tr) =
              (Some (Error (Wrapf ''Error creating rebase branch'' err)), (w3, pre)))
       \<and> (\<forall>err w3 w4. CreateBranch P branchName ''refs/remotes/upstream/master'' w2 = (None, w3)
              \<and> Merge P ''openshift/master'' w3 = (Some err, w4) \<longrightarrow>
            Run P fromRef dir (w0, tr) =
              (Some (Error (Wrapf ''Error creating rebase branch'' err)),
               (w4, pre @ [CallMerge ''openshift/master''])))
       \<and> (\<forall>w3 w4. CreateBranch P branchName ''refs/remotes/upstream/master'' w2 = (None, w3)
              \<and> Merge P ''openshift/master'' w3 = (None, w4) \<longrightarrow>
            Run P fromRef dir (w0, tr) =
              processCommits P commits (w4, pre @ [CallMerge ''openshift/master''])
            \<and> prefix (pre @ [CallMerge ''openshift/master''])
                 (snd (snd (Run P fromRef dir (w0, tr)))))"
proof (intro conjI allI impI)
  fix err w3
  assume "CreateBranch P branchName ''refs/remotes/upstream/master'' w2 = (Some err, w3)"
  with assms show "Run P fromRef dir (w0, tr) =
      (Some (Error (Wrapf ''Error creating rebase branch'' err)), (w3, pre))"
    by (simp add: Run_def call_eq Let_def)
next
  fix err w3 w4
  assume "CreateBranch P branchName ''refs/remotes/upstream/master'' w2 = (None, w3)
          \<and> Merge P ''openshift/master'' w3 = (Some err, w4)"
  with assms show "Run P fromRef dir (w0, tr) =
      (Some (Error (Wrapf ''Error creating rebase branch'' err)),
       (w4, pre @ [CallMerge ''openshift/master'']))"
    by (simp add: Run_def call_eq Let_def)
next
  fix w3 w4
  assume a: "CreateBranch P branchName ''refs/remotes/upstream/master'' w2 = (None, w3)
          \<and> Merge P ''openshift/master'' w3 = (None, w4)"
  with assms show r: "Run P fromRef dir (w0, tr) =
      processCommits P commits (w4, pre @ [CallMerge ''openshift/master''])"
    by (simp add: Run_reaches_loop)
  show "prefix (pre @ [CallMerge ''openshift/master'']) (snd (snd (Run P fromRef dir (w0, tr))))"
    unfolding r
    using processCommits_trace[of "(w4, pre @ [CallMerge ''openshift/master''])" P commits]
    by simp
qed

theorem Run_order_witness:
  "Run ((samplePorts [commitA] (\<lambda>_. False) False (\<lambda>_. False))
          \<lparr> CreateBranch := \<lambda>_ _ w. (Some (External ''branch exists''), w) \<rparr>)
       ''v1.30.0'' ''/repo'' ((), []) =
     (Some (Error (Wrapf ''Error creating rebase branch'' (External ''branch exists''))),
      ((), [CallOpenGit ''/repo'', CallGetCommits ''v1.30.0'' ''/repo'',
            CallCreateBranch ''rebase-2024-05-01'' ''refs/remotes/upstream/master'']))
   \<and> Run ((samplePorts [commitA] (\<lambda>_. False) False (\<lambda>_. False))
          \<lparr> Merge := \<lambda>_ w. (Some (External ''merge conflict''), w) \<rparr>)
       ''v1.30.0'' ''/repo'' ((), []) =
     (Some (Error (Wrapf ''Error creating rebase branch'' (External ''merge conflict''))),
      ((), [CallOpenGit ''/repo'', CallGetCommits ''v1.30.0'' ''/repo'',
            CallCreateBranch ''rebase-2024-05-01'' ''refs/remotes/upstream/master'',
            CallMerge ''openshift/master'']))
   \<and> Run (samplePorts [commitA] (\<lambda>_. False) False (\<lambda>_. False)) ''v1.30.0'' ''/repo'' ((), []) =
     (None,
      ((), [CallOpenGit ''/repo'', CallGetCommits ''v1.30.0'' ''/repo'',
            CallCreateBranch ''rebase-2024-05-01'' ''refs/remotes/upstream/master'',
            CallMerge ''openshift/master'',
            LogProcessing ''a1'' ''UPSTREAM: <drop>: old fix'', LogDropping ''a1'']))"
proof -
  let ?S = "samplePorts [commitA] (\<lambda>_. False) False (\<lambda>_. False)"
  let ?B = "?S \<lparr> CreateBranch := \<lambda>_ _ w. (Some (External ''branch exists''), w) \<rparr>"
  let ?M = "?S \<lparr> Merge := \<lambda>_ w. (Some (External ''merge conflict''), w) \<rparr>"
  let ?pre = "[CallOpenGit ''/repo'', CallGetCommits ''v1.30.0'' ''/repo'',
               CallCreateBranch ''rebase-2024-05-01'' ''refs/remotes/upstream/master'']"
  have b1: "OpenGit ?B ''/repo'' () = (None, ())"
    and b2: "GetCommits ?B ''v1.30.0'' ''/repo'' () = (Inr [commitA], ())"
    and b3: "''rebase-2024-05-01'' = ''rebase-'' @ DateOnly ?B ()"
    and b4: "CreateBranch ?B ''rebase-2024-05-01'' ''refs/remotes/upstream/master'' ()
               = (Some (External ''branch exists''), ())"
    by (simp_all add: samplePorts_def)
  have m1: "OpenGit ?M ''/repo'' () = (None, ())"
    and m2: "GetCommits ?M ''v1.30.0'' ''/repo'' () = (Inr [commitA], ())"
    and m3: "''rebase-2024-05-01'' = ''rebase-'' @ DateOnly ?M ()"
    and m4: "CreateBranch ?M ''rebase-2024-05-01'' ''refs/remotes/upstream/master'' () = (None, ())"
    and m5: "Merge ?M ''openshift/master'' () = (Some (External ''merge conflict''), ())"
    by (simp_all add: samplePorts_def)
  have s1: "OpenGit ?S ''/repo'' () = (None, ())"
    and s2: "GetCommits ?S ''v1.30.0'' ''/repo'' () = (Inr [commitA], ())"
    and s3: "''rebase-2024-05-01'' = ''rebase-'' @ DateOnly ?S ()"
    and s4: "CreateBranch ?S ''rebase-2024-05-01'' ''refs/remotes/upstream/master'' () = (None, ())"
    and s5: "Merge ?S ''openshift/master'' () = (None, ())"
    by (simp_all add: samplePorts_def)
  have p: "?pre = [] @ ?pre" by simp
  have loop: "processCommits ?S [commitA] ((), ?pre @ [CallMerge ''openshift/master'']) =
      (None, ((), ?pre @ [CallMerge ''openshift/master'',
            LogProcessing ''a1'' ''UPSTREAM: <drop>: old fix'', LogDropping ''a1'']))"
    by (simp add: sample_defs classifier_defs FindStringSubmatch.simps klog_def Let_def)
  from Run_order[OF b1 b2 b3 p] b4
  have a: "Run ?B ''v1.30.0'' ''/repo'' ((), []) =
     (Some (Error (Wrapf ''Error creating rebase branch'' (External ''branch exists''))), ((), ?pre))"
    by blast
  from Run_order[OF m1 m2 m3 p] m4 m5
  have b: "Run ?M ''v1.30.0'' ''/repo'' ((), []) =
     (Some (Error (Wrapf ''Error creating rebase branch'' (External ''merge conflict''))),
      ((), ?pre @ [CallMerge ''openshift/master'']))"
    by blast
  from Run_order[OF s1 s2 s3 p] s4 s5
  have "Run ?S ''v1.30.0'' ''/repo'' ((), []) =
      processCommits ?S [commitA] ((), ?pre @ [CallMerge ''openshift/master''])"
    by blast
  with loop have c: "Run ?S ''v1.30.0'' ''/repo'' ((), []) =
      (None, ((), ?pre @ [CallMerge ''openshift/master'',
            LogProcessing ''a1'' ''UPSTREAM: <drop>: old fix'', LogDropping ''a1'']))"
    by simp
  from a b c show ?thesis by simp
qed

text \<open>
  The claim as written puts the branch creation and the merge before the reading of
  the commit log. In a run where everything succeeds, the call that reads the log
  precedes the branch creation in the trace, and not the other way round.
\<close>

theorem Run_log_before_branch_counterexample:
  "precedes (CallGetCommits ''v1.30.0'' ''/repo'')
            (CallCreateBranch ''rebase-2024-05-01'' ''refs/remotes/upstream/master'')
            (snd (snd (Run (samplePorts [] (\<lambda>_. False) False (\<lambda>_. False)) ''v1.30.0'' ''/repo'' ((), []))))
   \<and> \<not> precedes (CallCreateBranch ''rebase-2024-05-01'' ''refs/remotes/upstream/master'')
                (CallGetCommits ''v1.30.0'' ''/repo'')
                (snd (snd (Run (samplePorts [] (\<lambda>_. False) False (\<lambda>_. False)) ''v1.30.0'' ''/repo'' ((), []))))"
  by (simp add: precedes_def Run_def samplePorts_def call_def Let_def)

text \<open>
  C6. Let the run reach the loop, let the commits before \<open>c\<close> be processed without
  error, let \<open>c\<close> be dispatched to \<open>carryFlow\<close>, and let \<open>carryFlow\<close> return the error
  \<open>err\<close>. Then \<open>Run\<close> returns exactly \<open>err\<close>, in the state \<open>carryFlow\<close> left: whatever
  commits follow \<open>c\<close> in the queue, none of them adds an event or is even classified.
\<close>

theorem Run_halts_on_carry_error:
  assumes "OpenGit P dir w0 = (None, w1)"
      and "GetCommits P fromRef dir w1 = (Inr (before @ c # after), w2)"
      and "CreateBranch P (''rebase-'' @ DateOnly P w2) ''refs/remotes/upstream/master'' w2 = (None, w3)"
      and "Merge P ''openshift/master'' w3 = (None, w4)"
      and "processCommits P before
             (w4, tr @ [CallOpenGit dir, CallGetCommits fromRef dir,
                        CallCreateBranch (''rebase-'' @ DateOnly P w2) ''refs/remotes/upstream/master'',
                        CallMerge ''openshift/master'']) = (None, s1)"
      and "classify (FormatMessage P (Message c)) = Inr Carry"
      and "carryFlow P c (klog (LogProcessing (Hash c) (FormatMessage P (Message c))) s1) = (Some err, s2)"
  shows "Run P fromRef dir (w0, tr) = (Some (Error err), s2)"
  using Run_reaches_loop[OF assms(1-4)] processCommits_halts[OF assms(5-7)] by simp

text \<open>
  Here the commit after the failing one has no tag, so classifying it would panic;
  the run returns the error of the lookup instead.
\<close>

theorem Run_halts_on_carry_error_witness:
  "Run (samplePorts [commitA, commitB, commitD] (\<lambda>_. True) False (\<lambda>_. False))
       ''v1.30.0'' ''/repo'' ((), []) =
     (Some (Error (External ''no such file or directory'')),
      ((), [CallOpenGit ''/repo'', CallGetCommits ''v1.30.0'' ''/repo'',
            CallCreateBranch ''rebase-2024-05-01'' ''refs/remotes/upstream/master'',
            CallMerge ''openshift/master'',
            LogProcessing ''a1'' ''UPSTREAM: <drop>: old fix'', LogDropping ''a1'',
            LogProcessing ''b2'' ''UPSTREAM: <carry>: keep the patch'',
            LogInitiating ''b2'', CallCherryPick ''b2'', LogProblems ''b2'', CallStatus,
            CallAbortCherryPick, LogLooking, CallGetwd, CallStat ''/work/carries/b2'',
            LogManualIntervention ''b2'']))"
proof -
  let ?S = "samplePorts [commitA, commitB, commitD] (\<lambda>_. True) False (\<lambda>_. False)"
  let ?t4 = "[CallOpenGit ''/repo'', CallGetCommits ''v1.30.0'' ''/repo'',
              CallCreateBranch ''rebase-2024-05-01'' ''refs/remotes/upstream/master'',
              CallMerge ''openshift/master'']"
  let ?t5 = "?t4 @ [LogProcessing ''a1'' ''UPSTREAM: <drop>: old fix'', LogDropping ''a1'']"
  let ?t6 = "?t5 @ [LogProcessing ''b2'' ''UPSTREAM: <carry>: keep the patch'',
            LogInitiating ''b2'', CallCherryPick ''b2'', LogProblems ''b2'', CallStatus,
            CallAbortCherryPick, LogLooking, CallGetwd, CallStat ''/work/carries/b2'',
            LogManualIntervention ''b2'']"
  have s1: "OpenGit ?S ''/repo'' () = (None, ())"
    and s2: "GetCommits ?S ''v1.30.0'' ''/repo'' () = (Inr ([commitA] @ commitB # [commitD]), ())"
    and s3: "CreateBranch ?S (''rebase-'' @ DateOnly ?S ()) ''refs/remotes/upstream/master'' ()
               = (None, ())"
    and s4: "Merge ?S ''openshift/master'' () = (None, ())"
    by (simp_all add: samplePorts_def)
  have s5: "processCommits ?S [commitA]
             ((), [] @ [CallOpenGit ''/repo'', CallGetCommits ''v1.30.0'' ''/repo'',
                        CallCreateBranch (''rebase-'' @ DateOnly ?S ()) ''refs/remotes/upstream/master'',
                        CallMerge ''openshift/master'']) = (None, ((), ?t5))"
    by (simp add: sample_defs classifier_defs FindStringSubmatch.simps klog_def Let_def)
  have s6: "classify (FormatMessage ?S (Message commitB)) = Inr Carry"
    by (simp add: sample_defs classifier_defs FindStringSubmatch.simps)
  have s7: "carryFlow ?S commitB
              (klog (LogProcessing (Hash commitB) (FormatMessage ?S (Message commitB))) ((), ?t5))
            = (Some (External ''no such file or directory''), ((), ?t6))"
    by (simp add: sample_defs flow_defs Let_def)
  from Run_halts_on_carry_error[OF s1 s2 s3 s4 s5 s6 s7] show ?thesis by simp
qed

text \<open>
  A commit that the dispatch sends to the drop arm or to the default arm changes
  nothing but the trace, and the trace only by two log lines: the world is passed on
  as it was, no collaborator is called, and the loop goes on with the remaining
  commits. Both arms are reached only by a commit whose message has a tag.
\<close>

lemma drop_and_unknown_only_log:
  "(classify (FormatMessage P (Message c)) = Inr Drop \<longrightarrow>
      processCommits P (c # cs) (w, tr) =
        processCommits P cs
          (w, tr @ [LogProcessing (Hash c) (FormatMessage P (Message c)), LogDropping (Hash c)]))
   \<and> (\<forall>action. classify (FormatMessage P (Message c)) = Inr (Unknown action) \<longrightarrow>
      processCommits P (c # cs) (w, tr) =
        processCommits P cs
          (w, tr @ [LogProcessing (Hash c) (FormatMessage P (Message c)),
                    LogUnknown (Hash c) action]))"
  by (simp add: Let_def klog_eq)

lemma drop_and_unknown_only_log_sample:
  "classify (FormatMessage (samplePorts [] (\<lambda>_. True) False (\<lambda>_. False)) (Message commitA)) = Inr Drop
   \<and> processCommits (samplePorts [] (\<lambda>_. True) False (\<lambda>_. False)) [commitA] ((), []) =
       (None, ((), [LogProcessing ''a1'' ''UPSTREAM: <drop>: old fix'', LogDropping ''a1'']))
   \<and> classify (FormatMessage (samplePorts [] (\<lambda>_. True) False (\<lambda>_. False)) (Message commitC))
       = Inr (Unknown ''revert'')
   \<and> processCommits (samplePorts [] (\<lambda>_. True) False (\<lambda>_. False)) [commitC] ((), []) =
       (None, ((), [LogProcessing ''c3'' ''UPSTREAM: revert: undo'', LogUnknown ''c3'' ''revert'']))"
proof -
  let ?S = "samplePorts [] (\<lambda>_. True) False (\<lambda>_. False)"
  have a: "classify (FormatMessage ?S (Message commitA)) = Inr Drop"
    by (simp add: sample_defs classifier_defs FindStringSubmatch.simps)
  have c: "classify (FormatMessage ?S (Message commitC)) = Inr (Unknown ''revert'')"
    by (simp add: sample_defs classifier_defs FindStringSubmatch.simps)
  have fa: "FormatMessage ?S (Message commitA) = ''UPSTREAM: <drop>: old fix''"
    and fc: "FormatMessage ?S (Message commitC) = ''UPSTREAM: revert: undo''"
    and ha: "Hash commitA = ''a1''" and hc: "Hash commitC = ''c3''"
    by (simp_all add: sample_defs)
  from drop_and_unknown_only_log[of ?S commitA "[]" "()" "[]"] a
  have ra: "processCommits ?S [commitA] ((), []) =
       (None, ((), [LogProcessing ''a1'' ''UPSTREAM: <drop>: old fix'', LogDropping ''a1'']))"
    by (simp add: fa ha)
  from drop_and_unknown_only_log[of ?S commitC "[]" "()" "[]"] c
  have rc: "processCommits ?S [commitC] ((), []) =
       (None, ((), [LogProcessing ''c3'' ''UPSTREAM: revert: undo'', LogUnknown ''c3'' ''revert'']))"
    by (simp add: fc hc)
  from a c ra rc show ?thesis by simp
qed

text \<open>
  A commit without any tag never reaches an arm of the switch: reading its action
  panics, and the loop ends there with the commits behind it untouched.
\<close>

lemma processCommits_untagged:
  assumes "\<forall>i b. \<not> tagAt (FormatMessage P (Message c)) i b"
  shows "processCommits P (c # cs) s =
           (Some (IndexOutOfRange 1 0),
            klog (LogProcessing (Hash c) (FormatMessage P (Message c))) s)"
  using actionFromMessage_no_tag[OF assms] by (simp add: classify_def Let_def)

text \<open>
  C8. The claim is that a commit classified as Drop or as Unknown touches nothing,
  never makes the run fail, and lets the loop proceed to the next commit. A commit
  without a tag is an Unknown commit in the sense of the claim, and on it the code
  does otherwise: in the run over \<open>commitD\<close> (no tag) followed by \<open>commitA\<close>, the
  classification of \<open>commitD\<close> panics, the run ends with that panic right after the
  line that announces \<open>commitD\<close>, and \<open>commitA\<close> is never processed.
\<close>

theorem Run_panics_on_untagged_commit:
  "classify (FormatMessage (samplePorts [commitD, commitA] (\<lambda>_. False) False (\<lambda>_. False))
               (Message commitD)) = Inl (IndexOutOfRange 1 0)
   \<and> Run (samplePorts [commitD, commitA] (\<lambda>_. False) False (\<lambda>_. False))
          ''v1.30.0'' ''/repo'' ((), []) =
       (Some (IndexOutOfRange 1 0),
        ((), [CallOpenGit ''/repo'', CallGetCommits ''v1.30.0'' ''/repo'',
              CallCreateBranch ''rebase-2024-05-01'' ''refs/remotes/upstream/master'',
              CallMerge ''openshift/master'',
              LogProcessing ''d4'' ''Merge branch master'']))"
  by (simp add: Run_def call_def klog_def Let_def sample_defs classifier_defs
                FindStringSubmatch.simps)

section \<open>Properties of package git\<close>

lemma logLoop_stop:
  "Hash c = stopAtHash \<Longrightarrow> (\<forall>x\<in>set before. Hash x \<noteq> stopAtHash)
     \<Longrightarrow> logLoop (before @ c # after) fin stopAtHash commits = Inr (commits @ before @ [c])"
  by (induction before arbitrary: commits) (simp_all add: Let_def)

lemma logLoop_EOF:
  "(\<forall>x\<in>set iter. Hash x \<noteq> stopAtHash)
     \<Longrightarrow> logLoop iter EOF stopAtHash commits = Inr (commits @ iter)"
  by (induction iter arbitrary: commits) (simp_all add: Let_def)

text \<open>
  C9. Let the repository hand out an iterator. If the iterator yields a commit whose
  hash is \<open>stopAtHash\<close>, then \<open>Log\<close> returns the commits up to the first such commit
  in the order of the iterator, that commit included as the last element. If no
  commit has that hash and the iterator ends with \<open>io.EOF\<close>, \<open>Log\<close> returns every
  commit of the iterator and no error.
\<close>

theorem Log_inclusive_stop:
  assumes "repositoryLog (if length fromRef > 0 then NewHash fromRef else ZeroHash) = Inr (iter, fin)"
  shows "(\<forall>before c after.
            iter = before @ c # after \<and> Hash c = stopAtHash
            \<and> (\<forall>x\<in>set before. Hash x \<noteq> stopAtHash) \<longrightarrow>
            Log NewHash repositoryLog fromRef stopAtHash = Inr (before @ [c]))
       \<and> ((\<forall>x\<in>set iter. Hash x \<noteq> stopAtHash) \<and> fin = EOF \<longrightarrow>
            Log NewHash repositoryLog fromRef stopAtHash = Inr iter)"
  using assms by (auto simp: Log_def Let_def logLoop_stop logLoop_EOF)

theorem Log_inclusive_stop_witness:
  "Log (\<lambda>h. h) sampleLog ''HEAD'' ''b2'' = Inr [commitA, commitB]
   \<and> Log (\<lambda>h. h) sampleLog ''HEAD'' ''ffff'' = Inr [commitA, commitB, commitC]"
proof -
  have h: "sampleLog (if length ''HEAD'' > 0 then (\<lambda>h. h) ''HEAD'' else ZeroHash)
             = Inr ([commitA, commitB, commitC], EOF)"
    by (simp add: sampleLog_def)
  have i: "[commitA, commitB, commitC] = [commitA] @ commitB # [commitC]
           \<and> Hash commitB = ''b2'' \<and> (\<forall>x\<in>set [commitA]. Hash x \<noteq> ''b2'')"
    by (simp add: sample_defs)
  have n: "(\<forall>x\<in>set [commitA, commitB, commitC]. Hash x \<noteq> ''ffff'') \<and> EOF = EOF"
    by (simp add: sample_defs)
  from Log_inclusive_stop[where repositoryLog = sampleLog and fromRef = "''HEAD''"
      and NewHash = "\<lambda>h. h" and stopAtHash = "''b2''", OF h] i
  have a: "Log (\<lambda>h. h) sampleLog ''HEAD'' ''b2'' = Inr ([commitA] @ [commitB])"
    by blast
  from Log_inclusive_stop[where repositoryLog = sampleLog and fromRef = "''HEAD''"
      and NewHash = "\<lambda>h. h" and stopAtHash = "''ffff''", OF h] n
  have b: "Log (\<lambda>h. h) sampleLog ''HEAD'' ''ffff'' = Inr [commitA, commitB, commitC]"
    by blast
  from a b show ?thesis by simp
qed

lemma fetchURLForRemote_Inr:
  "fetchURLForRemote remoteOf name = Inr u \<longleftrightarrow> (\<exists>us. remoteOf name = Inr (u # us))"
  by (cases "remoteOf name")
     (auto simp: fetchURLForRemote_def neq_Nil_conv split: if_splits)

lemma fetchURLForRemote_take:
  "fetchURLForRemote (firstURLOnly remoteOf) name =
     fetchURLForRemote remoteOf name"
proof (cases "remoteOf name")
  case (Inl e) then show ?thesis by (simp add: fetchURLForRemote_def firstURLOnly_def)
next
  case (Inr us) then show ?thesis by (cases us) (simp_all add: fetchURLForRemote_def firstURLOnly_def)
qed

lemma checkRemotesLoop_take:
  "checkRemotesLoop (firstURLOnly remoteOf) rs = checkRemotesLoop remoteOf rs"
  by (induction rs) (auto simp: fetchURLForRemote_take split: sum.splits)

text \<open>
  C10. \<open>CheckRemotes\<close> returns nil exactly when the remote \<open>openshift\<close> exists with a
  first URL that contains \<open>github.com:openshift/kubernetes.git\<close> and the remote
  \<open>upstream\<close> exists with a first URL that contains
  \<open>github.com:kubernetes/kubernetes.git\<close>. Its result, error included, is the same on
  the remotes stripped of every URL but the first.
\<close>

theorem CheckRemotes_succeeds_iff:
  "(CheckRemotes remoteOf = None \<longleftrightarrow>
      (\<exists>u us. remoteOf ''openshift'' = Inr (u # us)
               \<and> Contains u ''github.com:openshift/kubernetes.git'')
      \<and> (\<exists>u us. remoteOf ''upstream'' = Inr (u # us)
               \<and> Contains u ''github.com:kubernetes/kubernetes.git''))
   \<and> CheckRemotes (firstURLOnly remoteOf) = CheckRemotes remoteOf"
proof
  show "CheckRemotes remoteOf = None \<longleftrightarrow>
      (\<exists>u us. remoteOf ''openshift'' = Inr (u # us)
               \<and> Contains u ''github.com:openshift/kubernetes.git'')
      \<and> (\<exists>u us. remoteOf ''upstream'' = Inr (u # us)
               \<and> Contains u ''github.com:kubernetes/kubernetes.git'')"
  proof (cases "fetchURLForRemote remoteOf ''openshift''")
    case (Inl e)
    then have "\<nexists>u. fetchURLForRemote remoteOf ''openshift'' = Inr u" by simp
    then have "\<nexists>u us. remoteOf ''openshift'' = Inr (u # us)"
      by (simp add: fetchURLForRemote_Inr)
    with Inl show ?thesis by (simp add: CheckRemotes_def)
  next
    case a: (Inr u1)
    then obtain us1 where r1: "remoteOf ''openshift'' = Inr (u1 # us1)"
      by (auto simp: fetchURLForRemote_Inr)
    show ?thesis
    proof (cases "fetchURLForRemote remoteOf ''upstream''")
      case (Inl e)
      then have "\<nexists>u. fetchURLForRemote remoteOf ''upstream'' = Inr u" by simp
      then have "\<nexists>u us. remoteOf ''upstream'' = Inr (u # us)"
        by (simp add: fetchURLForRemote_Inr)
      with Inl a show ?thesis by (simp add: CheckRemotes_def)
    next
      case b: (Inr u2)
      then obtain us2 where r2: "remoteOf ''upstream'' = Inr (u2 # us2)"
        by (auto simp: fetchURLForRemote_Inr)
      from a b r1 r2 show ?thesis by (simp add: CheckRemotes_def)
    qed
  qed
  show "CheckRemotes (firstURLOnly remoteOf) = CheckRemotes remoteOf"
    unfolding CheckRemotes_def by (rule checkRemotesLoop_take)
qed

theorem CheckRemotes_succeeds_iff_witness:
  "CheckRemotes sampleRemotes = None
   \<and> CheckRemotes (firstURLOnly sampleRemotes) = None"
proof -
  have o: "Contains ''git@github.com:openshift/kubernetes.git'' ''github.com:openshift/kubernetes.git''"
    unfolding Contains_def
    using sublist_appendI[of "''github.com:openshift/kubernetes.git''" "''git@''" "[]"] by simp
  have u: "Contains ''git@github.com:kubernetes/kubernetes.git'' ''github.com:kubernetes/kubernetes.git''"
    unfolding Contains_def
    using sublist_appendI[of "''github.com:kubernetes/kubernetes.git''" "''git@''" "[]"] by simp
  have ro: "sampleRemotes ''openshift'' =
      Inr (''git@github.com:openshift/kubernetes.git'' # [''https://example.org/mirror.git''])"
    and ru: "sampleRemotes ''upstream'' = Inr (''git@github.com:kubernetes/kubernetes.git'' # [])"
    by (simp_all add: sampleRemotes_def)
  from CheckRemotes_succeeds_iff[of sampleRemotes] o u ro ru
  have a: "CheckRemotes sampleRemotes = None" by blast
  from CheckRemotes_succeeds_iff[of sampleRemotes] a
  have "CheckRemotes (firstURLOnly sampleRemotes) = None" by simp
  with a show ?thesis by simp
qed

end
